theory Spec2Isabelle
  imports Complex_Main "HOL-Library.Word" "HOL-Library.Sublist" "HOL-Library.Char_ord"
    "HOL-Library.List_Lexorder"
begin

section \<open>HikMicro thermal viewer: a model of \<^verbatim>\<open>thermal_camera.py\<close>\<close>

text \<open>
  The script has two parts: the start-up device discovery with its reset-and-retry loop
  (lines 13--91), and the per-frame loop (lines 164--261) that extracts the Y channel,
  smooths over the last frames, normalises to 8 bits and handles one key.

  Numbers. The raw capture buffer is a list of bytes (\<open>8 word\<close>). The script's
  floating-point values (\<^verbatim>\<open>np.float32\<close> pixels, the Python float
  \<^verbatim>\<open>contrast_boost\<close>) are modelled as exact rationals (\<open>rat\<close>): the model
  computes what the script computes when no floating-point operation rounds. Python
  integers are \<open>int\<close>; lengths and counts are \<open>nat\<close>. Console output
  (\<^verbatim>\<open>print\<close>) and the image-library calls after normalisation are not modelled.
\<close>

subsection \<open>Errors\<close>

datatype error =
    InsufficientData   \<comment> \<open>the raw buffer is shorter than \<open>h * w * 2\<close>: the frame is dropped\<close>
  | ValueError         \<comment> \<open>numpy: reshape to another size, ragged stack, min of an empty array\<close>
  | ZeroDivision       \<comment> \<open>a divisor is zero (Python raises, numpy yields nan or inf)\<close>
  | EmptyMean          \<comment> \<open>numpy: mean of an empty sequence (nan)\<close>

subsection \<open>Session state and key handling (lines 111--133, 246--261)\<close>

type_synonym frame = "rat list list"

datatype colormap =
  COLORMAP_INFERNO | COLORMAP_JET | COLORMAP_HOT | COLORMAP_MAGMA | COLORMAP_TURBO | COLORMAP_PLASMA

definition COLORMAPS :: "(colormap \<times> string) list" where
  "COLORMAPS =
    [(COLORMAP_INFERNO, ''Inferno''),
     (COLORMAP_JET, ''Jet''),
     (COLORMAP_HOT, ''Hot''),
     (COLORMAP_MAGMA, ''Magma''),
     (COLORMAP_TURBO, ''Turbo''),
     (COLORMAP_PLASMA, ''Plasma'')]"

definition SMOOTH_FRAMES :: nat where
  "SMOOTH_FRAMES = 3"

record session =
  frame_buffer :: "frame list"
  cmap_idx :: int
  contrast_boost :: rat

text \<open>The module-level initial values: lines 112, 126 and 133.\<close>

definition initial_session :: session where
  "initial_session = \<lparr>frame_buffer = [], cmap_idx = 0, contrast_boost = 1\<rparr>"

text \<open>How one pass through the loop body ends.\<close>

datatype ctl =
    Next           \<comment> \<open>the body ran to its end, or \<^verbatim>\<open>continue\<close>\<close>
  | Quit           \<comment> \<open>\<^verbatim>\<open>break\<close>\<close>
  | Crash error    \<comment> \<open>an uncaught exception\<close>

text \<open>Python's \<^verbatim>\<open>ord\<close> on a one-character string.\<close>

definition ord_of :: "char \<Rightarrow> int" where
  "ord_of c = of_char c"

text \<open>
  Lines 247--261: the \<^verbatim>\<open>if/elif\<close> chain on the key code. The snapshot branch
  writes a file and leaves the session as it is.
\<close>

definition handle_key :: "int \<Rightarrow> session \<Rightarrow> ctl \<times> session" where
  "handle_key key s =
    (if key = ord_of CHR ''q'' then (Quit, s)
     else if key = ord_of CHR ''s'' then (Next, s)
     else if key = ord_of CHR ''c'' then
       (Next, s\<lparr>cmap_idx := (cmap_idx s + 1) mod int (length COLORMAPS)\<rparr>)
     else if key = ord_of CHR ''+'' \<or> key = ord_of CHR ''='' then
       (Next, s\<lparr>contrast_boost := min (contrast_boost s + 2 / 10) 5\<rparr>)
     else if key = ord_of CHR ''-'' then
       (Next, s\<lparr>contrast_boost := max (contrast_boost s - 2 / 10) (4 / 10)\<rparr>)
     else (Next, s))"

text \<open>
  A sequence of key codes handled one after the other, as successive passes of the loop
  do: the sessions after each key, ending with the pass that quits.
\<close>

fun handle_keys :: "int list \<Rightarrow> session \<Rightarrow> session list" where
  "handle_keys [] s = []"
| "handle_keys (k # ks) s =
    (case handle_key k s of
       (Quit, s') \<Rightarrow> [s']
     | (_, s') \<Rightarrow> s' # handle_keys ks s')"

subsection \<open>Y-channel extraction (lines 169--177)\<close>

text \<open>
  \<^verbatim>\<open>reshape(rows, cols)\<close> of a flat array: numpy raises unless the size is
  \<open>rows * cols\<close>.
\<close>

definition reshape :: "nat \<Rightarrow> nat \<Rightarrow> 'a list \<Rightarrow> error + 'a list list" where
  "reshape rows cols xs =
    (if length xs = rows * cols
     then Inr (map (\<lambda>r. take cols (drop (r * cols) xs)) [0..<rows])
     else Inl ValueError)"

text \<open>The slice \<^verbatim>\<open>[0::2]\<close> of one row: offsets 0, 2, 4, ...\<close>

fun even_offsets :: "'a list \<Rightarrow> 'a list" where
  "even_offsets [] = []"
| "even_offsets [x] = [x]"
| "even_offsets (x # y # xs) = x # even_offsets xs"

text \<open>\<^verbatim>\<open>astype(np.float32)\<close> of a byte: exact.\<close>

definition byte_to_float :: "8 word \<Rightarrow> rat" where
  "byte_to_float b = of_nat (unat b)"

text \<open>
  Lines 172--177, for the frame size \<open>h\<close>, \<open>w\<close> the loop binds at line 170. A short
  buffer is the \<^verbatim>\<open>continue\<close> of line 173, returned here as \<open>InsufficientData\<close>.
\<close>

definition extract_y :: "nat \<Rightarrow> nat \<Rightarrow> 8 word list \<Rightarrow> error + frame" where
  "extract_y h w raw_bytes =
    (if length raw_bytes < h * w * 2 then Inl InsufficientData
     else
       (case reshape h (w * 2) (take (h * w * 2) raw_bytes) of
          Inl e \<Rightarrow> Inl e
        | Inr frame_data \<Rightarrow> Inr (map (\<lambda>row. map byte_to_float (even_offsets row)) frame_data)))"

subsection \<open>Temporal averaging (lines 180--183)\<close>

definition add_frames :: "frame \<Rightarrow> frame \<Rightarrow> frame" where
  "add_frames a b = map2 (map2 (+)) a b"

definition same_shape :: "frame \<Rightarrow> frame \<Rightarrow> bool" where
  "same_shape a b = (map length a = map length b)"

text \<open>
  \<^verbatim>\<open>np.mean(frames, axis=0)\<close> on a list of 2-D arrays: the arrays are stacked
  (they must have one shape), added up along the first axis and divided by their number.
\<close>

definition mean_axis0 :: "frame list \<Rightarrow> error + frame" where
  "mean_axis0 fs =
    (case fs of
       [] \<Rightarrow> Inl EmptyMean
     | f # rest \<Rightarrow>
         if list_all (same_shape f) rest
         then Inr (map (map (\<lambda>x. x / of_nat (length fs))) (foldl add_frames f rest))
         else Inl ValueError)"

text \<open>Lines 180--183: the new buffer and the averaged frame.\<close>

definition temporal_average :: "frame list \<Rightarrow> frame \<Rightarrow> frame list \<times> (error + frame)" where
  "temporal_average buf gray =
    (let fb = buf @ [gray];
         fb = (if length fb > SMOOTH_FRAMES then tl fb else fb)
     in (fb, mean_axis0 fb))"





subsection \<open>Normalisation with contrast boost (lines 189--197)\<close>

text \<open>\<^verbatim>\<open>min()\<close> and \<^verbatim>\<open>max()\<close> of an array: numpy raises on an empty one.\<close>

fun amin :: "rat list \<Rightarrow> error + rat" where
  "amin [] = Inl ValueError"
| "amin (x # xs) = Inr (fold min xs x)"

fun amax :: "rat list \<Rightarrow> error + rat" where
  "amax [] = Inl ValueError"
| "amax (x # xs) = Inr (fold max xs x)"

definition clip :: "rat \<Rightarrow> rat \<Rightarrow> rat \<Rightarrow> rat" where
  "clip x lo hi = min (max x lo) hi"

text \<open>\<^verbatim>\<open>astype(np.uint8)\<close> of a float: the fraction is dropped (towards zero).\<close>

definition to_uint8 :: "rat \<Rightarrow> 8 word" where
  "to_uint8 x = word_of_int (if 0 \<le> x then \<lfloor>x\<rfloor> else \<lceil>x\<rceil>)"

definition normalize :: "frame \<Rightarrow> rat \<Rightarrow> error + 8 word list list" where
  "normalize thermal contrast =
    (case (amin (concat thermal), amax (concat thermal)) of
       (Inr t_min, Inr t_max) \<Rightarrow>
         if contrast = 0 then Inl ZeroDivision
         else
           (let t_range = max (t_max - t_min) 1;
                t_mid = (t_min + t_max) / 2;
                b_min = t_mid - (t_range / 2) / contrast;
                b_max = t_mid + (t_range / 2) / contrast
            in if b_max - b_min = 0 then Inl ZeroDivision
               else Inr (map (map (\<lambda>x. to_uint8 (clip ((x - b_min) / (b_max - b_min)) 0 1 * 255)))
                          thermal))
     | (Inl e, _) \<Rightarrow> Inl e
     | (_, Inl e) \<Rightarrow> Inl e)"

subsection \<open>One pass of the main loop (lines 164--261)\<close>

text \<open>
  \<open>cap_read\<close> is what \<^verbatim>\<open>cap.read()\<close> returns (the flag and the flattened
  frame), \<open>wait_key\<close> what \<^verbatim>\<open>cv2.waitKey(1)\<close> returns in this pass. The result
  is how the pass ends, the session after it, and the 8-bit frame it produced, if any.
\<close>

definition iteration ::
  "bool \<times> 8 word list \<Rightarrow> int \<Rightarrow> session \<Rightarrow> ctl \<times> session \<times> 8 word list list option" where
  "iteration cap_read wait_key s =
    (let (ret, raw_bytes) = cap_read in
     if \<not> ret then (Next, s, None)
     else
       (case extract_y 192 256 raw_bytes of
          Inl InsufficientData \<Rightarrow> (Next, s, None)
        | Inl e \<Rightarrow> (Crash e, s, None)
        | Inr gray \<Rightarrow>
            (let (fb, avg) = temporal_average (frame_buffer s) gray;
                 s1 = s\<lparr>frame_buffer := fb\<rparr>
             in case avg of
                  Inl e \<Rightarrow> (Crash e, s1, None)
                | Inr thermal \<Rightarrow>
                    (case normalize thermal (contrast_boost s1) of
                       Inl e \<Rightarrow> (Crash e, s1, None)
                     | Inr thermal_8bit \<Rightarrow>
                         (let (c, s2) = handle_key (and wait_key 255) s1
                          in (c, s2, Some thermal_8bit))))))"

subsection \<open>Device discovery (lines 8--91)\<close>

text \<open>
  What the script sees of the operating system. A USB device directory under
  \<^verbatim>\<open>/sys/bus/usb/devices\<close>: its path, the stripped contents of its descriptor
  files (\<open>None\<close> when reading raises), and whether opening and resetting its control
  file succeed. A video node under \<^verbatim>\<open>/sys/class/video4linux\<close>: its path and
  the real path it links to. The lists are in the order \<^verbatim>\<open>glob\<close> returns.
\<close>

record usb_entry =
  devdir :: string
  idVendor :: "string option"
  idProduct :: "string option"
  busnum :: "int option"
  devnum :: "int option"
  open_ok :: bool
  ioctl_ok :: bool

record video_entry =
  vdev :: string
  realpath :: string

record world =
  usb_devices :: "usb_entry list"
  video_nodes :: "video_entry list"

text \<open>
  The world changes while the script sleeps: \<open>env t\<close> is the world \<open>t\<close> seconds after
  the start. The state of a run is the clock and the trace of what the script did.
\<close>

type_synonym env = "nat \<Rightarrow> world"

datatype event =
    Sleep nat              \<comment> \<open>\<^verbatim>\<open>time.sleep\<close>\<close>
  | ResetIoctl int int     \<comment> \<open>the reset ioctl sent to bus, device\<close>

record sys =
  clock :: nat
  trace :: "event list"

definition sleep :: "nat \<Rightarrow> sys \<Rightarrow> sys" where
  "sleep n s = s\<lparr>clock := clock s + n, trace := trace s @ [Sleep n]\<rparr>"

definition THERMAL_USB_VID :: string where
  "THERMAL_USB_VID = ''2bdf''"

definition THERMAL_USB_PID :: string where
  "THERMAL_USB_PID = ''0102''"

text \<open>Python's truth value of a string or \<^verbatim>\<open>None\<close>.\<close>

fun truthy :: "string option \<Rightarrow> bool" where
  "truthy None = False"
| "truthy (Some str) = (str \<noteq> [])"

text \<open>Lines 13--35. An exception inside the \<^verbatim>\<open>try\<close> moves on to the next device.\<close>

fun usb_reset_loop :: "usb_entry list \<Rightarrow> sys \<Rightarrow> bool \<times> sys" where
  "usb_reset_loop [] s = (False, s)"
| "usb_reset_loop (d # ds) s =
    (case idVendor d of
       None \<Rightarrow> usb_reset_loop ds s
     | Some vid \<Rightarrow>
         if vid \<noteq> THERMAL_USB_VID then usb_reset_loop ds s
         else
           (case idProduct d of
              None \<Rightarrow> usb_reset_loop ds s
            | Some pid \<Rightarrow>
                if pid \<noteq> THERMAL_USB_PID then usb_reset_loop ds s
                else
                  (case (busnum d, devnum d) of
                     (Some b, Some n) \<Rightarrow>
                       if \<not> open_ok d then usb_reset_loop ds s
                       else
                         (let s1 = s\<lparr>trace := trace s @ [ResetIoctl b n]\<rparr>
                          in if \<not> ioctl_ok d then usb_reset_loop ds s1
                             else (True, sleep 2 s1))
                   | _ \<Rightarrow> usb_reset_loop ds s)))"

definition usb_reset_thermal :: "env \<Rightarrow> sys \<Rightarrow> bool \<times> sys" where
  "usb_reset_thermal e s = usb_reset_loop (usb_devices (e (clock s))) s"

text \<open>Lines 38--51.\<close>

fun find_usb_loop :: "usb_entry list \<Rightarrow> string option" where
  "find_usb_loop [] = None"
| "find_usb_loop (d # ds) =
    (case idVendor d of
       None \<Rightarrow> find_usb_loop ds
     | Some vid \<Rightarrow>
         if vid \<noteq> THERMAL_USB_VID then find_usb_loop ds
         else
           (case idProduct d of
              None \<Rightarrow> find_usb_loop ds
            | Some pid \<Rightarrow>
                if pid = THERMAL_USB_PID then Some (devdir d) else find_usb_loop ds))"

definition find_thermal_usb_sysfs :: "world \<Rightarrow> string option" where
  "find_thermal_usb_sysfs wld = find_usb_loop (usb_devices wld)"

text \<open>Lines 54--61. \<^verbatim>\<open>os.path.basename\<close>: what follows the last slash.\<close>

definition basename :: "string \<Rightarrow> string" where
  "basename p = rev (takeWhile (\<lambda>c. c \<noteq> CHR ''/'') (rev p))"

fun find_video_loop :: "string \<Rightarrow> video_entry list \<Rightarrow> string option" where
  "find_video_loop usb_basename [] = None"
| "find_video_loop usb_basename (v # vs) =
    (if sublist usb_basename (realpath v) then Some (''/dev/'' @ basename (vdev v))
     else find_video_loop usb_basename vs)"

definition find_thermal_video_device :: "world \<Rightarrow> string \<Rightarrow> string option" where
  "find_thermal_video_device wld sysfs_dir =
    find_video_loop (basename sysfs_dir) (sort_key vdev (video_nodes wld))"

text \<open>
  Lines 78--85: \<^verbatim>\<open>for attempt in range(5)\<close>, with \<open>n\<close> the attempts left and
  \<open>device\<close> the variable the loop may reassign.
\<close>

fun wait_loop :: "env \<Rightarrow> nat \<Rightarrow> string option \<Rightarrow> sys \<Rightarrow> string option \<times> sys" where
  "wait_loop e 0 device s = (device, s)"
| "wait_loop e (Suc n) device s =
    (let s1 = sleep 1 s;
         sysfs = find_thermal_usb_sysfs (e (clock s1))
     in if truthy sysfs
        then
          (let device' = find_thermal_video_device (e (clock s1)) (the sysfs)
           in if truthy device' then (device', s1)
              else wait_loop e n device' s1)
        else wait_loop e n device s1)"

datatype outcome =
    Exit int          \<comment> \<open>\<^verbatim>\<open>exit(code)\<close>\<close>
  | Found string      \<comment> \<open>line 91 reached with this device\<close>

text \<open>Lines 66--91.\<close>

definition discover :: "env \<Rightarrow> sys \<Rightarrow> outcome \<times> sys" where
  "discover e s =
    (let sysfs = find_thermal_usb_sysfs (e (clock s)) in
     if \<not> truthy sysfs then (Exit 1, s)
     else
       (let device = find_thermal_video_device (e (clock s)) (the sysfs);
            (device, s) =
              (if \<not> truthy device
               then (let (r, s1) = usb_reset_thermal e s in wait_loop e 5 device s1)
               else (device, s))
        in if \<not> truthy device then (Exit 1, s) else (Found (the device), s)))"

definition start :: sys where
  "start = \<lparr>clock = 0, trace = []\<rparr>"

text \<open>
  For the statements about discovery: a device of the camera's identity; such a device
  whose bus and device numbers can be read and whose control file can be opened, so that
  the reset ioctl is sent to it; and one scan-and-resolve (lines 80--82) of a world.
\<close>

definition matches_identity :: "usb_entry \<Rightarrow> bool" where
  "matches_identity d = (idVendor d = Some THERMAL_USB_VID \<and> idProduct d = Some THERMAL_USB_PID)"

definition resettable :: "usb_entry \<Rightarrow> bool" where
  "resettable d = (matches_identity d \<and> busnum d \<noteq> None \<and> devnum d \<noteq> None \<and> open_ok d)"

definition poll :: "world \<Rightarrow> string option" where
  "poll wld =
    (let sysfs = find_thermal_usb_sysfs wld
     in if truthy sysfs then find_thermal_video_device wld (the sysfs) else None)"

text \<open>
  Worlds to run discovery in: a hub that is not the camera; the camera on bus 1 as
  device 5; and an environment in which the camera's video node appears four seconds
  after the start.
\<close>

definition hub_entry :: usb_entry where
  "hub_entry = \<lparr>devdir = ''/sys/bus/usb/devices/usb1'', idVendor = Some ''1d6b'',
     idProduct = Some ''0002'', busnum = Some 1, devnum = Some 1, open_ok = True, ioctl_ok = True\<rparr>"

definition camera_entry :: usb_entry where
  "camera_entry = \<lparr>devdir = ''/sys/bus/usb/devices/1-2'', idVendor = Some ''2bdf'',
     idProduct = Some ''0102'', busnum = Some 1, devnum = Some 5, open_ok = True, ioctl_ok = True\<rparr>"

definition camera_node :: video_entry where
  "camera_node = \<lparr>vdev = ''/sys/class/video4linux/video0'',
     realpath = ''/sys/devices/pci0000:00/usb1/1-2/1-2:1.0/video4linux/video0''\<rparr>"

definition hub_only :: env where
  "hub_only t = \<lparr>usb_devices = [hub_entry], video_nodes = []\<rparr>"

definition late_node :: env where
  "late_node t = \<lparr>usb_devices = [hub_entry, camera_entry],
     video_nodes = (if t < 4 then [] else [camera_node])\<rparr>"

section \<open>Key handling: contrast and palette\<close>

lemma ord_codes:
  "ord_of CHR ''q'' = 113" "ord_of CHR ''s'' = 115" "ord_of CHR ''c'' = 99"
  "ord_of CHR ''+'' = 43" "ord_of CHR ''='' = 61" "ord_of CHR ''-'' = 45"
  by (simp_all add: ord_of_def)

lemma length_COLORMAPS: "length COLORMAPS = 6"
  by (simp add: COLORMAPS_def)

lemma handle_key_contrast_bounds:
  assumes "4 / 10 \<le> contrast_boost s" "contrast_boost s \<le> 5"
  shows "4 / 10 \<le> contrast_boost (snd (handle_key k s)) \<and> contrast_boost (snd (handle_key k s)) \<le> 5"
  using assms by (auto simp: handle_key_def ord_codes min_def max_def)

lemma handle_keys_contrast_bounds:
  assumes "4 / 10 \<le> contrast_boost s" "contrast_boost s \<le> 5"
    and "s' \<in> set (handle_keys ks s)"
  shows "4 / 10 \<le> contrast_boost s' \<and> contrast_boost s' \<le> 5"
  using assms
proof (induction ks arbitrary: s)
  case Nil
  then show ?case by simp
next
  case (Cons k ks)
  obtain c s1 where h: "handle_key k s = (c, s1)"
    by (cases "handle_key k s")
  have b: "4 / 10 \<le> contrast_boost s1 \<and> contrast_boost s1 \<le> 5"
    using handle_key_contrast_bounds [OF Cons.prems(1,2), of k] h by simp
  show ?case
  proof (cases "s' = s1")
    case True
    with b show ?thesis by simp
  next
    case False
    with Cons.prems(3) h have "s' \<in> set (handle_keys ks s1)"
      by (cases c) auto
    with Cons.IH b show ?thesis by blast
  qed
qed

text \<open>
  Claim C4. Whatever keys are pressed, in any number and order, starting from the
  initial contrast 1.0: the contrast after each key lies in the closed interval
  [0.4, 5.0]. The contrast-up key sets it to the smaller of contrast + 0.2 and 5.0, the
  contrast-down key to the larger of contrast - 0.2 and 0.4.
\<close>

theorem contrast_within_bounds:
  "(\<forall>s' \<in> set (handle_keys ks initial_session).
      4 / 10 \<le> contrast_boost s' \<and> contrast_boost s' \<le> 5) \<and>
   contrast_boost (snd (handle_key (ord_of CHR ''+'') s)) = min (contrast_boost s + 2 / 10) 5 \<and>
   contrast_boost (snd (handle_key (ord_of CHR ''-'') s)) = max (contrast_boost s - 2 / 10) (4 / 10)"
proof -
  have "4 / 10 \<le> contrast_boost initial_session" "contrast_boost initial_session \<le> 5"
    by (simp_all add: initial_session_def)
  then have "\<forall>s' \<in> set (handle_keys ks initial_session).
      4 / 10 \<le> contrast_boost s' \<and> contrast_boost s' \<le> 5"
    using handle_keys_contrast_bounds by blast
  moreover have "contrast_boost (snd (handle_key (ord_of CHR ''+'') s)) = min (contrast_boost s + 2 / 10) 5"
    by (simp add: handle_key_def ord_codes)
  moreover have "contrast_boost (snd (handle_key (ord_of CHR ''-'') s)) = max (contrast_boost s - 2 / 10) (4 / 10)"
    by (simp add: handle_key_def ord_codes)
  ultimately show ?thesis by blast
qed

theorem contrast_within_bounds_witness:
  "handle_keys [ord_of CHR ''-'', ord_of CHR ''-'', ord_of CHR ''-'', ord_of CHR ''-''] initial_session
     = [initial_session\<lparr>contrast_boost := 4 / 5\<rparr>, initial_session\<lparr>contrast_boost := 3 / 5\<rparr>,
        initial_session\<lparr>contrast_boost := 2 / 5\<rparr>, initial_session\<lparr>contrast_boost := 2 / 5\<rparr>] \<and>
   4 / 10 \<le> contrast_boost (initial_session\<lparr>contrast_boost := 2 / 5\<rparr>) \<and>
   contrast_boost (initial_session\<lparr>contrast_boost := 2 / 5\<rparr>) \<le> 5"
  using contrast_within_bounds
    [of "[ord_of CHR ''-'', ord_of CHR ''-'', ord_of CHR ''-'', ord_of CHR ''-'']" initial_session]
  by (simp add: handle_key_def ord_codes initial_session_def)

text \<open>
  Claim C7. The palette list has 6 entries; the palette-cycle key moves the index to
  (index + 1) mod 6, and pressed 6 times in a row it brings the session, and with it the
  selected palette, back to where it was (for an index within the list).
\<close>

theorem palette_cycle_six:
  assumes "0 \<le> cmap_idx s" "cmap_idx s < 6"
  shows "length COLORMAPS = 6 \<and>
    cmap_idx (snd (handle_key (ord_of CHR ''c'') s)) = (cmap_idx s + 1) mod 6 \<and>
    ((\<lambda>s. snd (handle_key (ord_of CHR ''c'') s)) ^^ 6) s = s"
proof -
  have step: "snd (handle_key (ord_of CHR ''c'') t) = t\<lparr>cmap_idx := (cmap_idx t + 1) mod 6\<rparr>" for t
    by (simp add: handle_key_def ord_codes length_COLORMAPS)
  have "((\<lambda>s. snd (handle_key (ord_of CHR ''c'') s)) ^^ 6) s = s\<lparr>cmap_idx := (cmap_idx s + 6) mod 6\<rparr>"
    by (simp add: eval_nat_numeral step mod_simps)
  also have "\<dots> = s"
    using assms by simp
  finally show ?thesis
    by (simp add: step length_COLORMAPS)
qed

theorem palette_cycle_six_witness:
  "0 \<le> cmap_idx (initial_session\<lparr>cmap_idx := 4\<rparr>) \<and> cmap_idx (initial_session\<lparr>cmap_idx := 4\<rparr>) < 6 \<and>
   cmap_idx (snd (handle_key (ord_of CHR ''c'') (initial_session\<lparr>cmap_idx := 4\<rparr>))) = 5 \<and>
   ((\<lambda>s. snd (handle_key (ord_of CHR ''c'') s)) ^^ 6) (initial_session\<lparr>cmap_idx := 4\<rparr>)
     = initial_session\<lparr>cmap_idx := 4\<rparr>"
  using palette_cycle_six [of "initial_session\<lparr>cmap_idx := 4\<rparr>"]
  by (simp add: initial_session_def)

text \<open>
  Claim C10. The key \<^verbatim>\<open>=\<close> is handled exactly as the key \<^verbatim>\<open>+\<close>: the same
  result and session, with the contrast raised by 0.2 and capped at 5.0.
\<close>

theorem equals_key_is_contrast_up:
  "handle_key (ord_of CHR ''='') s = handle_key (ord_of CHR ''+'') s \<and>
   handle_key (ord_of CHR ''='') s = (Next, s\<lparr>contrast_boost := min (contrast_boost s + 2 / 10) 5\<rparr>)"
  by (simp add: handle_key_def ord_codes)

text \<open>
  Claim C9. When the capture fails, or the raw buffer has fewer than 192 * 256 * 2
  bytes, the pass ends at once: the frame buffer, the contrast and the palette index are
  what they were, no frame is produced and no key is read.
\<close>

theorem failed_capture_leaves_session:
  assumes "\<not> ret \<or> length raw_bytes < 192 * 256 * 2"
  shows "iteration (ret, raw_bytes) wait_key s = (Next, s, None)"
  using assms by (auto simp: iteration_def extract_y_def)

theorem failed_capture_leaves_session_witness:
  "length [1, 2, 3 :: 8 word] < 192 * 256 * 2 \<and>
   iteration (True, [1, 2, 3]) (ord_of CHR ''+'') initial_session = (Next, initial_session, None) \<and>
   iteration (False, []) (ord_of CHR ''c'') initial_session = (Next, initial_session, None)"
  using failed_capture_leaves_session [of True "[1, 2, 3]" "ord_of CHR ''+''" initial_session]
    failed_capture_leaves_session [of False "[]" "ord_of CHR ''c''" initial_session]
  by simp

section \<open>Y-channel extraction\<close>

lemma length_even_offsets: "length (even_offsets xs) = (length xs + 1) div 2"
  by (induction xs rule: even_offsets.induct) simp_all

lemma nth_even_offsets: "2 * j < length xs \<Longrightarrow> even_offsets xs ! j = xs ! (2 * j)"
proof (induction xs arbitrary: j rule: even_offsets.induct)
  case 1
  then show ?case by simp
next
  case (2 x)
  then show ?case by simp
next
  case (3 x y xs)
  then show ?case by (cases j) simp_all
qed

lemma extract_y_rows:
  assumes "h * w * 2 \<le> length raw_bytes"
  shows "extract_y h w raw_bytes =
    Inr (map (\<lambda>r. map byte_to_float (even_offsets (take (w * 2) (drop (r * (w * 2)) (take (h * w * 2) raw_bytes)))))
       [0..<h])"
  using assms by (simp add: extract_y_def reshape_def o_def mult.assoc)

lemma row_bound:
  assumes "i < h" "j < (w::nat)"
  shows "i * (w * 2) + 2 * j < h * w * 2"
proof -
  have "i * (w * 2) + 2 * j < i * (w * 2) + w * 2"
    using assms(2) by simp
  also have "\<dots> = Suc i * (w * 2)"
    by simp
  also have "\<dots> \<le> h * (w * 2)"
    using assms(1) by (intro mult_le_mono1) simp
  finally show ?thesis
    by (simp add: mult.assoc)
qed

lemma extract_y_pixel:
  assumes "h * w * 2 \<le> length raw_bytes" "i < h" "j < w"
  shows "\<exists>gray. extract_y h w raw_bytes = Inr gray \<and> length gray = h \<and> length (gray ! i) = w \<and>
    gray ! i ! j = byte_to_float (raw_bytes ! (i * (w * 2) + 2 * j))"
proof -
  let ?row = "take (w * 2) (drop (i * (w * 2)) (take (h * w * 2) raw_bytes))"
  have "Suc i * (w * 2) \<le> h * (w * 2)"
    using assms(2) by (intro mult_le_mono1) simp
  then have b: "i * (w * 2) + 2 * j < h * w * 2" "i * (w * 2) + w * 2 \<le> h * w * 2"
    using row_bound [OF assms(2,3)] by (simp_all add: mult.assoc)
  have len: "length ?row = w * 2"
    using assms(1) b(2) by simp
  have "even_offsets ?row ! j = ?row ! (2 * j)"
    using len assms(3) by (intro nth_even_offsets) simp
  also have "\<dots> = raw_bytes ! (i * (w * 2) + 2 * j)"
    using assms b by simp
  finally have px: "even_offsets ?row ! j = raw_bytes ! (i * (w * 2) + 2 * j)" .
  have "length (even_offsets ?row) = (w * 2 + 1) div 2"
    by (simp only: length_even_offsets len)
  then have "length (even_offsets ?row) = w"
    by simp
  with px show ?thesis
    using assms by (simp add: extract_y_rows)
qed

text \<open>
  Claim C3. For a frame size with at least one pixel, extraction gives the
  insufficient-data error exactly when the raw buffer has fewer than width * height * 2
  bytes, so in particular at length width * height * 2 - 1; with at least that many
  bytes it succeeds, and the value at row 0, column 0 is byte 0 of the buffer.
\<close>

theorem extract_y_insufficient_data:
  assumes "0 < w" "0 < h"
  shows "(extract_y h w raw_bytes = Inl InsufficientData \<longleftrightarrow> length raw_bytes < w * h * 2) \<and>
    (length raw_bytes = w * h * 2 - 1 \<longrightarrow> extract_y h w raw_bytes = Inl InsufficientData) \<and>
    (w * h * 2 \<le> length raw_bytes \<longrightarrow>
       (\<exists>gray. extract_y h w raw_bytes = Inr gray \<and> gray ! 0 ! 0 = byte_to_float (raw_bytes ! 0)))"
proof -
  have 1: "extract_y h w raw_bytes = Inl InsufficientData \<longleftrightarrow> length raw_bytes < w * h * 2"
    by (simp add: extract_y_def reshape_def mult.commute mult.assoc)
  have "0 < w * h * 2"
    using assms by simp
  then have 2: "length raw_bytes = w * h * 2 - 1 \<longrightarrow> extract_y h w raw_bytes = Inl InsufficientData"
    using 1 by simp
  have 3: "\<exists>gray. extract_y h w raw_bytes = Inr gray \<and> gray ! 0 ! 0 = byte_to_float (raw_bytes ! 0)"
    if "w * h * 2 \<le> length raw_bytes"
  proof -
    from that have "h * w * 2 \<le> length raw_bytes"
      by (simp add: mult.commute)
    from extract_y_pixel [OF this assms(2,1)] show ?thesis
      by auto
  qed
  from 1 2 3 show ?thesis by blast
qed

theorem extract_y_insufficient_data_witness:
  "(0::nat) < 2 \<and> length [7, 0, 9, 0, 1, 2, 3, 4 :: 8 word] = 2 * 2 * 2 \<and>
   extract_y 2 2 [7, 0, 9, 0, 1, 2, 3, 4] = Inr [[7, 9], [1, 3]] \<and>
   extract_y 2 2 [7, 0, 9, 0, 1, 2, 3] = Inl InsufficientData"
proof -
  have u: "[0..<2] = [0, Suc 0]"
    by (simp add: upt_rec)
  show ?thesis
    using extract_y_insufficient_data [of 2 2 "[7, 0, 9, 0, 1, 2, 3, 4]"]
      extract_y_insufficient_data [of 2 2 "[7, 0, 9, 0, 1, 2, 3]"]
    by (simp add: extract_y_def reshape_def byte_to_float_def u)
qed

section \<open>Normalisation\<close>

lemma amin_eq_Min: "amin xs = Inr m \<longleftrightarrow> xs \<noteq> [] \<and> m = Min (set xs)"
proof (cases xs)
  case Nil
  then show ?thesis by simp
next
  case (Cons x ys)
  have "amin (x # ys) = Inr (Min (set (x # ys)))"
    by (simp only: amin.simps Min.set_eq_fold)
  with Cons show ?thesis by auto
qed

lemma amax_eq_Max: "amax xs = Inr m \<longleftrightarrow> xs \<noteq> [] \<and> m = Max (set xs)"
proof (cases xs)
  case Nil
  then show ?thesis by simp
next
  case (Cons x ys)
  have "amax (x # ys) = Inr (Max (set (x # ys)))"
    by (simp only: amax.simps Max.set_eq_fold)
  with Cons show ?thesis by auto
qed

lemma floor_quotient: "\<lfloor>numeral a / numeral b :: rat\<rfloor> = numeral a div numeral b"
  using floor_divide_of_int_eq [of "numeral a" "numeral b", where ?'a = rat] by simp

lemma to_uint8_mid: "to_uint8 (255 / 2) = 127"
proof -
  show ?thesis
    by (simp add: to_uint8_def floor_quotient)
qed

text \<open>What line 196--197 computes for one pixel, once the window is known.\<close>

lemma normalize_window:
  assumes "amin (concat thermal) = Inr t_min" "amax (concat thermal) = Inr t_max"
    and "contrast \<noteq> 0"
  shows "normalize thermal contrast =
    Inr (map (map (\<lambda>x. to_uint8 (clip
      ((x - ((t_min + t_max) / 2 - (max (t_max - t_min) 1 / 2) / contrast)) /
         (max (t_max - t_min) 1 / contrast)) 0 1 * 255))) thermal)"
proof -
  have "0 < max (t_max - t_min) 1"
    by simp
  then have nz: "max (t_max - t_min) 1 / contrast \<noteq> 0"
    using assms(3) by simp
  have w: "((t_min + t_max) / 2 + (max (t_max - t_min) 1 / 2) / contrast)
      - ((t_min + t_max) / 2 - (max (t_max - t_min) 1 / 2) / contrast)
      = max (t_max - t_min) 1 / contrast"
    by (simp add: field_simps)
  show ?thesis
    using assms nz by (simp add: normalize_def Let_def w del: max_less_iff_conj)
qed

text \<open>
  Claim C1, as the code has it. For a flat frame (every pixel has the one value \<open>v\<close>)
  and any contrast above 0, normalisation divides by no zero and every pixel of the 8-bit
  result is 127: the window maps \<open>v\<close> to 0.5, and 0.5 * 255 = 127.5 loses its
  fraction in the conversion to 8 bits.
\<close>

theorem normalize_flat_frame:
  assumes "set (concat thermal) = {v}" "0 < contrast"
  shows "normalize thermal contrast = Inr (map (map (\<lambda>x. 127)) thermal)"
proof -
  have ne: "concat thermal \<noteq> []"
  proof
    assume "concat thermal = []"
    then have "set (concat thermal) = {}"
      by (simp only: list.set)
    with assms(1) show False
      by simp
  qed
  have lo: "amin (concat thermal) = Inr v" and hi: "amax (concat thermal) = Inr v"
    using assms(1) ne by (simp_all add: amin_eq_Min amax_eq_Max)
  have px: "to_uint8 (clip ((x - ((v + v) / 2 - (max (v - v) 1 / 2) / contrast)) /
         (max (v - v) 1 / contrast)) 0 1 * 255) = 127" if "x = v" for x
  proof -
    have h: "(x - ((v + v) / 2 - (max (v - v) 1 / 2) / contrast)) / (max (v - v) 1 / contrast) = 1 / 2"
      using that assms(2) by (simp add: field_simps)
    show ?thesis
      unfolding h by (simp add: clip_def to_uint8_mid)
  qed
  have "map (map (\<lambda>x. to_uint8 (clip ((x - ((v + v) / 2 - (max (v - v) 1 / 2) / contrast)) /
         (max (v - v) 1 / contrast)) 0 1 * 255))) thermal = map (map (\<lambda>x. 127)) thermal"
  proof (intro map_cong refl)
    fix row x
    assume "row \<in> set thermal" "x \<in> set row"
    then have "x \<in> set (concat thermal)"
      by auto
    with assms(1) have "x = v"
      by simp
    then show "to_uint8 (clip ((x - ((v + v) / 2 - (max (v - v) 1 / 2) / contrast)) /
         (max (v - v) 1 / contrast)) 0 1 * 255) = 127"
      by (rule px)
  qed
  then show ?thesis
    using normalize_window [OF lo hi] assms(2) by simp
qed

theorem normalize_flat_frame_witness:
  "set (concat [[100, 100], [100, 100 :: rat]]) = {100} \<and> (0::rat) < 2 / 5 \<and>
   normalize [[100, 100], [100, 100]] (2 / 5) = Inr [[127, 127], [127, 127]]"
  using normalize_flat_frame [of "[[100, 100], [100, 100]]" 100 "2 / 5"]
  by simp

text \<open>
  Claim C1 as stated asks for 128: a flat frame of value 100 at contrast 1.0 gives 127
  everywhere. Every intermediate value here (99.5, 100.5, 0.5, 127.5) is a binary
  fraction, so floating point computes the same.
\<close>

theorem normalize_flat_frame_not_128:
  "normalize [[100, 100], [100, 100]] 1 = Inr [[127, 127], [127, 127]] \<and> (127 :: 8 word) \<noteq> 128"
  by (simp add: normalize_def clip_def to_uint8_mid)




section \<open>Temporal averaging\<close>

















section \<open>Device discovery\<close>

lemma find_usb_loop_None: "find_usb_loop ds = None \<longleftrightarrow> list_all (\<lambda>d. \<not> matches_identity d) ds"
  by (induction ds) (auto simp: matches_identity_def split: option.splits)

text \<open>The reset routine, one device at a time.\<close>

lemma usb_reset_loop_step:
  "usb_reset_loop (d # ds) s =
    (if resettable d
     then
       (let s1 = s\<lparr>trace := trace s @ [ResetIoctl (the (busnum d)) (the (devnum d))]\<rparr>
        in if ioctl_ok d then (True, sleep 2 s1) else usb_reset_loop ds s1)
     else usb_reset_loop ds s)"
  by (auto simp: resettable_def matches_identity_def Let_def split: option.splits)

lemma usb_reset_loop_no_device:
  "list_all (\<lambda>d. \<not> resettable d) ds \<Longrightarrow> usb_reset_loop ds s = (False, s)"
  by (induction ds) (simp_all add: usb_reset_loop_step del: usb_reset_loop.simps(2))

lemma usb_reset_loop_extends:
  "\<exists>evs. trace (snd (usb_reset_loop ds s)) = trace s @ evs"
proof (induction ds arbitrary: s)
  case Nil
  then show ?case by simp
next
  case (Cons d ds)
  let ?s1 = "s\<lparr>trace := trace s @ [ResetIoctl (the (busnum d)) (the (devnum d))]\<rparr>"
  from Cons [of ?s1] obtain evs where "trace (snd (usb_reset_loop ds ?s1)) = trace s @ ResetIoctl (the (busnum d)) (the (devnum d)) # evs"
    by auto
  with Cons [of s] show ?case
    by (simp add: usb_reset_loop_step sleep_def Let_def del: usb_reset_loop.simps(2))
qed

lemma usb_reset_loop_ioctl:
  assumes "\<not> list_all (\<lambda>d. \<not> resettable d) ds"
  shows "\<exists>b n. ResetIoctl b n \<in> set (trace (snd (usb_reset_loop ds s)))"
  using assms
proof (induction ds arbitrary: s)
  case Nil
  then show ?case by simp
next
  case (Cons d ds)
  show ?case
  proof (cases "resettable d")
    case True
    let ?s1 = "s\<lparr>trace := trace s @ [ResetIoctl (the (busnum d)) (the (devnum d))]\<rparr>"
    obtain evs where "trace (snd (usb_reset_loop ds ?s1)) = trace ?s1 @ evs"
      using usb_reset_loop_extends by blast
    then have "ResetIoctl (the (busnum d)) (the (devnum d)) \<in> set (trace (snd (usb_reset_loop ds ?s1)))"
      by simp
    with True show ?thesis
      by (auto simp: usb_reset_loop_step sleep_def Let_def simp del: usb_reset_loop.simps(2))
  next
    case False
    with Cons.prems have "\<not> list_all (\<lambda>d. \<not> resettable d) ds"
      by simp
    from Cons.IH [OF this, of s] False show ?thesis
      by (simp add: usb_reset_loop_step del: usb_reset_loop.simps(2))
  qed
qed

text \<open>The retry loop: every attempt sleeps one second, then scans and resolves.\<close>

lemma sleep_1_n:
  "(sleep 1 s)\<lparr>clock := clock (sleep 1 s) + n, trace := trace (sleep 1 s) @ replicate n (Sleep 1)\<rparr>
    = s\<lparr>clock := clock s + Suc n, trace := trace s @ replicate (Suc n) (Sleep 1)\<rparr>"
  by (simp add: sleep_def)

lemma wait_loop_step:
  "wait_loop e (Suc n) device s =
    (if truthy (poll (e (clock s + 1))) then (poll (e (clock s + 1)), sleep 1 s)
     else wait_loop e n (if truthy (find_thermal_usb_sysfs (e (clock s + 1))) then poll (e (clock s + 1)) else device)
       (sleep 1 s))"
  by (simp add: poll_def Let_def sleep_def)

lemma wait_loop_exhausted:
  assumes "\<not> truthy device" "\<forall>k < n. \<not> truthy (poll (e (clock s + k + 1)))"
  shows "\<exists>d. \<not> truthy d \<and>
    wait_loop e n device s = (d, s\<lparr>clock := clock s + n, trace := trace s @ replicate n (Sleep 1)\<rparr>)"
  using assms
proof (induction n arbitrary: device s)
  case 0
  then show ?case by simp
next
  case (Suc n)
  let ?d = "if truthy (find_thermal_usb_sysfs (e (clock s + 1))) then poll (e (clock s + 1)) else device"
  from Suc.prems(2) have now: "\<not> truthy (poll (e (clock s + 1)))"
    by (metis One_nat_def add.right_neutral zero_less_Suc add_Suc_right)
  then have d: "\<not> truthy ?d"
    using Suc.prems(1) by simp
  have later: "\<forall>k < n. \<not> truthy (poll (e (clock (sleep 1 s) + k + 1)))"
    using Suc.prems(2) by (auto simp: sleep_def)
  from Suc.IH [OF d later] obtain d' where "\<not> truthy d'"
    and "wait_loop e n ?d (sleep 1 s) =
      (d', (sleep 1 s)\<lparr>clock := clock (sleep 1 s) + n, trace := trace (sleep 1 s) @ replicate n (Sleep 1)\<rparr>)"
    by blast
  with now show ?case
    by (simp only: wait_loop_step sleep_1_n if_False) blast
qed

lemma wait_loop_found:
  assumes "k < n" "truthy (poll (e (clock s + k + 1)))" "\<forall>j < k. \<not> truthy (poll (e (clock s + j + 1)))"
  shows "wait_loop e n device s =
    (poll (e (clock s + k + 1)), s\<lparr>clock := clock s + Suc k, trace := trace s @ replicate (Suc k) (Sleep 1)\<rparr>)"
  using assms
proof (induction n arbitrary: device s k)
  case 0
  then show ?case by simp
next
  case (Suc n)
  show ?case
  proof (cases k)
    case 0
    with Suc.prems(2) show ?thesis
      by (simp add: wait_loop_step sleep_def del: wait_loop.simps)
  next
    case (Suc i)
    let ?d = "if truthy (find_thermal_usb_sysfs (e (clock s + 1))) then poll (e (clock s + 1)) else device"
    from Suc.prems(3) Suc have now: "\<not> truthy (poll (e (clock s + 1)))"
      by (metis One_nat_def add.right_neutral zero_less_Suc add_Suc_right)
    have i: "i < n"
      using Suc.prems(1) Suc by simp
    have hit: "truthy (poll (e (clock (sleep 1 s) + i + 1)))"
      using Suc.prems(2) Suc by (simp add: sleep_def)
    have miss: "\<forall>j < i. \<not> truthy (poll (e (clock (sleep 1 s) + j + 1)))"
      using Suc.prems(3) Suc by (auto simp: sleep_def)
    have "wait_loop e n ?d (sleep 1 s) =
      (poll (e (clock (sleep 1 s) + i + 1)),
       (sleep 1 s)\<lparr>clock := clock (sleep 1 s) + Suc i, trace := trace (sleep 1 s) @ replicate (Suc i) (Sleep 1)\<rparr>)"
      using i hit miss by (rule Suc.IH)
    moreover have "clock (sleep 1 s) + i + 1 = clock s + k + 1"
      using Suc by (simp add: sleep_def)
    ultimately show ?thesis
      using now Suc by (simp only: wait_loop_step sleep_1_n if_False)
  qed
qed


lemma list_ex_resettable: "list_ex resettable ds \<longleftrightarrow> \<not> list_all (\<lambda>d. \<not> resettable d) ds"
  by (simp add: list_ex_iff list_all_iff)

text \<open>
  Claim C5. When no device on the bus has the camera's vendor and product identity at
  start-up, discovery ends with exit code 1 and has done nothing: the clock and the trace
  are as at the start, so no reset ioctl was sent and no second was slept.
\<close>

theorem no_device_no_reset:
  assumes "list_all (\<lambda>d. \<not> matches_identity d) (usb_devices (e 0))"
  shows "discover e start = (Exit 1, start) \<and> trace (snd (discover e start)) = []"
proof -
  have "find_thermal_usb_sysfs (e 0) = None"
    using assms by (simp add: find_thermal_usb_sysfs_def find_usb_loop_None)
  then show ?thesis
    by (simp add: discover_def start_def)
qed

theorem no_device_no_reset_witness:
  "list_all (\<lambda>d. \<not> matches_identity d) (usb_devices (hub_only 0)) \<and>
   discover hub_only start = (Exit 1, \<lparr>clock = 0, trace = []\<rparr>)"
  using no_device_no_reset [of hub_only]
  by (simp add: hub_only_def hub_entry_def matches_identity_def THERMAL_USB_VID_def start_def)

text \<open>The environment \<open>late_node\<close>, evaluated.\<close>

lemma late_node_scan: "find_thermal_usb_sysfs (late_node t) = Some ''/sys/bus/usb/devices/1-2''"
  by (simp add: find_thermal_usb_sysfs_def late_node_def hub_entry_def camera_entry_def
      THERMAL_USB_VID_def THERMAL_USB_PID_def)

lemma late_node_poll: "poll (late_node t) = (if t < 4 then None else Some ''/dev/video0'')"
  by (simp add: poll_def late_node_scan find_thermal_video_device_def)
    (simp add: late_node_def camera_node_def basename_def sublist_code prefix_code)

lemma late_node_reset:
  "usb_reset_thermal late_node start = (True, \<lparr>clock = 2, trace = [ResetIoctl 1 5, Sleep 2]\<rparr>)"
  by (simp add: usb_reset_thermal_def late_node_def hub_entry_def camera_entry_def start_def
      sleep_def THERMAL_USB_VID_def THERMAL_USB_PID_def)

text \<open>
  Claim C6. At start-up a device of the camera's identity is found and no video node
  resolves. Then the reset routine runs once (and sends the reset ioctl when some
  matching device's control file can be opened), leaving the state \<open>s1\<close>; after it
  come only one-second sleeps, each followed by one scan-and-resolve. If none of the
  5 ticks resolves a node, discovery ends with exit code 1 after 5 sleeps. If tick
  \<open>k\<close> (counting from 0) is the first to resolve a node, discovery ends with that node
  after \<open>k + 1\<close> sleeps, of which there are at most 5.
\<close>

theorem reset_and_retry:
  assumes "truthy (find_thermal_usb_sysfs (e 0))" "\<not> truthy (poll (e 0))"
  shows "\<exists>r s1. usb_reset_thermal e start = (r, s1) \<and>
    (list_ex resettable (usb_devices (e 0)) \<longrightarrow> (\<exists>b n. ResetIoctl b n \<in> set (trace s1))) \<and>
    ((\<forall>k < 5. \<not> truthy (poll (e (clock s1 + k + 1)))) \<longrightarrow>
       discover e start =
         (Exit 1, s1\<lparr>clock := clock s1 + 5, trace := trace s1 @ replicate 5 (Sleep 1)\<rparr>)) \<and>
    (\<forall>k < 5. truthy (poll (e (clock s1 + k + 1))) \<and> (\<forall>j < k. \<not> truthy (poll (e (clock s1 + j + 1)))) \<longrightarrow>
       discover e start =
         (Found (the (poll (e (clock s1 + k + 1)))),
          s1\<lparr>clock := clock s1 + Suc k, trace := trace s1 @ replicate (Suc k) (Sleep 1)\<rparr>))"
proof -
  obtain r s1 where reset: "usb_reset_thermal e start = (r, s1)"
    by (cases "usb_reset_thermal e start")
  let ?device = "find_thermal_video_device (e 0) (the (find_thermal_usb_sysfs (e 0)))"
  have device: "\<not> truthy ?device"
    using assms by (simp add: poll_def)
  have disc: "discover e start =
    (case wait_loop e 5 ?device s1 of
       (device, s) \<Rightarrow> if \<not> truthy device then (Exit 1, s) else (Found (the device), s))"
    using assms(1) device reset by (simp add: discover_def start_def Let_def)
  have ioctl: "\<exists>b n. ResetIoctl b n \<in> set (trace s1)" if "list_ex resettable (usb_devices (e 0))"
    using that usb_reset_loop_ioctl [of "usb_devices (e 0)" start] reset
    by (simp add: list_ex_resettable usb_reset_thermal_def start_def)
  have none: "discover e start =
      (Exit 1, s1\<lparr>clock := clock s1 + 5, trace := trace s1 @ replicate 5 (Sleep 1)\<rparr>)"
    if "\<forall>k < 5. \<not> truthy (poll (e (clock s1 + k + 1)))"
    using wait_loop_exhausted [OF device that] disc by auto
  have some: "discover e start =
      (Found (the (poll (e (clock s1 + k + 1)))),
       s1\<lparr>clock := clock s1 + Suc k, trace := trace s1 @ replicate (Suc k) (Sleep 1)\<rparr>)"
    if "k < 5" "truthy (poll (e (clock s1 + k + 1)))" "\<forall>j < k. \<not> truthy (poll (e (clock s1 + j + 1)))" for k
    using wait_loop_found [OF that, of ?device] that(2) disc by simp
  from reset ioctl none some show ?thesis
    by blast
qed

theorem reset_and_retry_witness:
  "truthy (find_thermal_usb_sysfs (late_node 0)) \<and> \<not> truthy (poll (late_node 0)) \<and>
   usb_reset_thermal late_node start = (True, \<lparr>clock = 2, trace = [ResetIoctl 1 5, Sleep 2]\<rparr>) \<and>
   \<not> truthy (poll (late_node 3)) \<and> truthy (poll (late_node 4)) \<and>
   discover late_node start =
     (Found ''/dev/video0'', \<lparr>clock = 4, trace = [ResetIoctl 1 5, Sleep 2, Sleep 1, Sleep 1]\<rparr>)"
proof -
  have scan: "truthy (find_thermal_usb_sysfs (late_node 0))"
    and unbound: "\<not> truthy (poll (late_node 0))"
    by (simp_all add: late_node_scan late_node_poll)
  from reset_and_retry [of late_node, OF scan unbound] obtain r s1
    where reset: "usb_reset_thermal late_node start = (r, s1)"
      and found: "\<forall>k < 5. truthy (poll (late_node (clock s1 + k + 1))) \<and>
          (\<forall>j < k. \<not> truthy (poll (late_node (clock s1 + j + 1)))) \<longrightarrow>
        discover late_node start =
          (Found (the (poll (late_node (clock s1 + k + 1)))),
           s1\<lparr>clock := clock s1 + Suc k, trace := trace s1 @ replicate (Suc k) (Sleep 1)\<rparr>)"
    by blast
  from reset have s1: "s1 = \<lparr>clock = 2, trace = [ResetIoctl 1 5, Sleep 2]\<rparr>"
    by (simp add: late_node_reset)
  have "(1::nat) < 5"
    by simp
  moreover have "truthy (poll (late_node (clock s1 + 1 + 1)))"
    by (simp add: s1 late_node_poll)
  moreover have "\<forall>j < 1. \<not> truthy (poll (late_node (clock s1 + j + 1)))"
    by (simp add: s1 late_node_poll)
  ultimately have "discover late_node start =
      (Found (the (poll (late_node (clock s1 + 1 + 1)))),
       s1\<lparr>clock := clock s1 + Suc 1, trace := trace s1 @ replicate (Suc 1) (Sleep 1)\<rparr>)"
    using found by blast
  then have "discover late_node start =
     (Found ''/dev/video0'', \<lparr>clock = 4, trace = [ResetIoctl 1 5, Sleep 2, Sleep 1, Sleep 1]\<rparr>)"
    by (simp add: s1 late_node_poll)
  with scan unbound late_node_reset show ?thesis
    by (simp add: late_node_poll)
qed

end
